theory Spec2Isabelle
  imports Complex_Main "HOL-Library.Log_Nat" "HOL-Library.Sublist"
begin

section \<open>The vision inference server (inference-server/server.py)\<close>

text \<open>
  The server is a Flask application with three routes. Its own code is embedded below
  function by function. What the code calls but does not define (the base64 codec, the
  Pillow image library, the YOLO model, Flask's request parsing) is taken as a parameter
  of the embedding; nothing is assumed about a parameter except where a theorem says so
  in a hypothesis.
\<close>

subsection \<open>Exceptions\<close>

text \<open>
  Every \<^verbatim>\<open>raise\<close> becomes a value. Only subclasses of \<^verbatim>\<open>Exception\<close> are
  modelled: these are what the \<^verbatim>\<open>except Exception\<close> clauses of the source catch.
  Each exception carries the text that \<^verbatim>\<open>str(e)\<close> returns.
\<close>

datatype exn =
    TypeError string
  | ValueError string
  | AttributeError string
  | IndexError string
  | KeyError string
  | OverflowError string
  | ZeroDivisionError string
  | OtherException string

fun str_exn :: "exn \<Rightarrow> string" where
  "str_exn (TypeError s) = s"
| "str_exn (ValueError s) = s"
| "str_exn (AttributeError s) = s"
| "str_exn (IndexError s) = s"
| "str_exn (KeyError s) = s"
| "str_exn (OverflowError s) = s"
| "str_exn (ZeroDivisionError s) = s"
| "str_exn (OtherException s) = s"

subsection \<open>JSON values as Python objects\<close>

text \<open>
  \<^verbatim>\<open>request.json\<close> yields the parsed body: \<^verbatim>\<open>None\<close>, a bool, an int, a float,
  a str, a list or a dict. A dict is an association list read with \<open>map_of\<close>.
\<close>

datatype pyfloat = Fin rat | PosInf | NegInf | NaN

datatype json =
    JNull
  | JBool bool
  | JInt int
  | JFloat pyfloat
  | JStr string
  | JArr "json list"
  | JObj "(string \<times> json) list"

text \<open>The truth value Python gives an object: \<^verbatim>\<open>not data\<close> is its negation.\<close>

fun truthy :: "json \<Rightarrow> bool" where
  "truthy JNull = False"
| "truthy (JBool b) = b"
| "truthy (JInt i) = (i \<noteq> 0)"
| "truthy (JFloat f) = (f \<noteq> Fin 0)"
| "truthy (JStr s) = (s \<noteq> [])"
| "truthy (JArr xs) = (xs \<noteq> [])"
| "truthy (JObj kvs) = (kvs \<noteq> [])"

text \<open>
  \<^verbatim>\<open>k in x\<close> for a str \<open>k\<close>: a key test on a dict, an element test on a list, a
  substring test on a str, and a TypeError on everything else.
\<close>

fun py_in :: "string \<Rightarrow> json \<Rightarrow> exn + bool" where
  "py_in k (JObj kvs) = Inr (k \<in> set (map fst kvs))"
| "py_in k (JArr xs) = Inr (JStr k \<in> set xs)"
| "py_in k (JStr s) = Inr (sublist k s)"
| "py_in k JNull = Inl (TypeError ''argument of type NoneType is not iterable'')"
| "py_in k (JBool b) = Inl (TypeError ''argument of type bool is not iterable'')"
| "py_in k (JInt i) = Inl (TypeError ''argument of type int is not iterable'')"
| "py_in k (JFloat f) = Inl (TypeError ''argument of type float is not iterable'')"

text \<open>\<^verbatim>\<open>x[k]\<close> for a str \<open>k\<close>.\<close>

fun py_getitem :: "json \<Rightarrow> string \<Rightarrow> exn + json" where
  "py_getitem (JObj kvs) k =
     (case map_of kvs k of None \<Rightarrow> Inl (KeyError k) | Some v \<Rightarrow> Inr v)"
| "py_getitem (JArr xs) k = Inl (TypeError ''list indices must be integers or slices, not str'')"
| "py_getitem (JStr s) k = Inl (TypeError ''string indices must be integers'')"
| "py_getitem JNull k = Inl (TypeError ''object is not subscriptable'')"
| "py_getitem (JBool b) k = Inl (TypeError ''object is not subscriptable'')"
| "py_getitem (JInt i) k = Inl (TypeError ''object is not subscriptable'')"
| "py_getitem (JFloat f) k = Inl (TypeError ''object is not subscriptable'')"

text \<open>\<^verbatim>\<open>x.get(k, None)\<close>: only a dict has the method.\<close>

fun py_get :: "json \<Rightarrow> string \<Rightarrow> exn + json" where
  "py_get (JObj kvs) k = (case map_of kvs k of None \<Rightarrow> Inr JNull | Some v \<Rightarrow> Inr v)"
| "py_get (JArr xs) k = Inl (AttributeError ''object has no attribute get'')"
| "py_get (JStr s) k = Inl (AttributeError ''object has no attribute get'')"
| "py_get JNull k = Inl (AttributeError ''object has no attribute get'')"
| "py_get (JBool b) k = Inl (AttributeError ''object has no attribute get'')"
| "py_get (JInt i) k = Inl (AttributeError ''object has no attribute get'')"
| "py_get (JFloat f) k = Inl (AttributeError ''object has no attribute get'')"

subsection \<open>Strings: split and index\<close>

text \<open>
  \<^verbatim>\<open>s.split(c)\<close> for a one-character separator: the pieces between the separators,
  always at least one piece.
\<close>

fun split_on :: "char \<Rightarrow> string \<Rightarrow> string list" where
  "split_on c [] = [[]]"
| "split_on c (x # xs) =
     (if x = c then [] # split_on c xs
      else (case split_on c xs of
              [] \<Rightarrow> [[x]]
            | w # ws \<Rightarrow> (x # w) # ws))"

text \<open>\<^verbatim>\<open>xs[i]\<close> for \<open>i \<ge> 0\<close>: out of range raises IndexError.\<close>

definition py_index :: "'a list \<Rightarrow> nat \<Rightarrow> exn + 'a" where
  "py_index xs i =
     (if i < length xs then Inr (xs ! i) else Inl (IndexError ''index out of range''))"

text \<open>\<^verbatim>\<open>x.split(',')[1]\<close>: only a str has the method.\<close>

fun split_comma_1 :: "json \<Rightarrow> exn + json" where
  "split_comma_1 (JStr s) =
     (case py_index (split_on CHR '','' s) 1 of Inl e \<Rightarrow> Inl e | Inr p \<Rightarrow> Inr (JStr p))"
| "split_comma_1 (JArr xs) = Inl (AttributeError ''object has no attribute split'')"
| "split_comma_1 (JObj kvs) = Inl (AttributeError ''object has no attribute split'')"
| "split_comma_1 JNull = Inl (AttributeError ''object has no attribute split'')"
| "split_comma_1 (JBool b) = Inl (AttributeError ''object has no attribute split'')"
| "split_comma_1 (JInt i) = Inl (AttributeError ''object has no attribute split'')"
| "split_comma_1 (JFloat f) = Inl (AttributeError ''object has no attribute split'')"

subsection \<open>Python floats: IEEE 754 binary64, round to nearest, ties to even\<close>

text \<open>
  The stream route computes \<^verbatim>\<open>int(dim * (640 / max(image.size)))\<close> in floats, and
  the rounding of each operation shows in the result (a side of 1077 pixels is scaled to
  639, not 640). A finite float is modelled by the rational it denotes, and every
  operation rounds its exact result to 53 significant bits. Overflow and subnormal
  numbers are not modelled; the values that occur for image sides below \<open>2 ^ 31\<close> lie
  between \<open>2 ^ -22\<close> and \<open>2 ^ 31\<close>, far inside the normal range.
\<close>

definition round_half_even :: "rat \<Rightarrow> int" where
  "round_half_even q =
     (let f = \<lfloor>q\<rfloor>; d = q - of_int f
      in if d < 1 / 2 then f
         else if 1 / 2 < d then f + 1
         else if even f then f else f + 1)"

text \<open>The exponent \<open>e\<close> with \<open>2 ^ e \<le> x < 2 ^ (e + 1)\<close>, for \<open>x > 0\<close>.\<close>

definition binade :: "rat \<Rightarrow> int" where
  "binade x =
     (case quotient_of x of (a, b) \<Rightarrow>
        let k = bitlen a - bitlen b
        in if 2 powi k \<le> x then k else k - 1)"

definition round_double :: "rat \<Rightarrow> rat" where
  "round_double x =
     (if x = 0 then 0
      else let u = 2 powi (binade \<bar>x\<bar> - 52)
           in of_int (round_half_even (x / u)) * u)"

text \<open>\<^verbatim>\<open>a / b\<close> on ints: the correctly rounded quotient.\<close>

definition py_truediv :: "int \<Rightarrow> int \<Rightarrow> exn + rat" where
  "py_truediv a b =
     (if b = 0 then Inl (ZeroDivisionError ''division by zero'')
      else Inr (round_double (of_int a / of_int b)))"

text \<open>\<^verbatim>\<open>d * r\<close> for an int \<open>d\<close> and a float \<open>r\<close>: the int is converted, then multiplied.\<close>

definition py_mul_int_float :: "int \<Rightarrow> rat \<Rightarrow> rat" where
  "py_mul_int_float d r = round_double (round_double (of_int d) * r)"

text \<open>\<^verbatim>\<open>int(x)\<close> on a finite float: truncation toward zero.\<close>

definition py_int :: "rat \<Rightarrow> int" where
  "py_int x = (if 0 \<le> x then \<lfloor>x\<rfloor> else \<lceil>x\<rceil>)"

text \<open>\<^verbatim>\<open>int(x)\<close> on any float.\<close>

fun py_int_float :: "pyfloat \<Rightarrow> exn + int" where
  "py_int_float (Fin q) = Inr (py_int q)"
| "py_int_float PosInf = Inl (OverflowError ''cannot convert float infinity to integer'')"
| "py_int_float NegInf = Inl (OverflowError ''cannot convert float infinity to integer'')"
| "py_int_float NaN = Inl (ValueError ''cannot convert float NaN to integer'')"

subsection \<open>Images and the libraries around the server\<close>

text \<open>
  An image is known to the server by \<^verbatim>\<open>image.size\<close>, the pair (width, height); its
  content stays opaque. The three library calls of the source are parameters:
  \<^verbatim>\<open>base64.b64decode\<close> on a str, \<^verbatim>\<open>Image.open\<close> on the decoded bytes and
  \<^verbatim>\<open>image.resize(new_size, LANCZOS)\<close>. Each may raise.
\<close>

type_synonym bytes = "nat list"

record image =
  image_size :: "int \<times> int"
  pixels :: bytes

record env =
  b64decode :: "string \<Rightarrow> exn + bytes"
  Image_open :: "bytes \<Rightarrow> exn + image"
  Image_resize :: "image \<Rightarrow> int \<times> int \<Rightarrow> exn + image"

text \<open>\<^verbatim>\<open>base64.b64decode(x)\<close>: an argument that is neither str nor bytes-like is a TypeError.\<close>

fun base64_b64decode :: "env \<Rightarrow> json \<Rightarrow> exn + bytes" where
  "base64_b64decode env (JStr s) = b64decode env s"
| "base64_b64decode env (JArr xs) = Inl (TypeError ''argument should be a bytes-like object or ASCII string'')"
| "base64_b64decode env (JObj kvs) = Inl (TypeError ''argument should be a bytes-like object or ASCII string'')"
| "base64_b64decode env JNull = Inl (TypeError ''argument should be a bytes-like object or ASCII string'')"
| "base64_b64decode env (JBool b) = Inl (TypeError ''argument should be a bytes-like object or ASCII string'')"
| "base64_b64decode env (JInt i) = Inl (TypeError ''argument should be a bytes-like object or ASCII string'')"
| "base64_b64decode env (JFloat f) = Inl (TypeError ''argument should be a bytes-like object or ASCII string'')"

subsection \<open>decode_image (lines 41-54)\<close>

text \<open>
  Lines 45-46: the value of \<^verbatim>\<open>image_data\<close> that reaches \<^verbatim>\<open>b64decode\<close> on line 49.
\<close>

definition data_url_payload :: "json \<Rightarrow> exn + json" where
  "data_url_payload image_data =
     (case py_in '','' image_data of
        Inl e \<Rightarrow> Inl e
      | Inr has_comma \<Rightarrow> if has_comma then split_comma_1 image_data else Inr image_data)"

text \<open>Lines 44-51, the body of the \<^verbatim>\<open>try\<close>.\<close>

definition decode_image_try :: "env \<Rightarrow> json \<Rightarrow> exn + image" where
  "decode_image_try env image_data =
     (case data_url_payload image_data of
        Inl e \<Rightarrow> Inl e
      | Inr payload \<Rightarrow>
          (case base64_b64decode env payload of
             Inl e \<Rightarrow> Inl e
           | Inr image_bytes \<Rightarrow> Image_open env image_bytes))"

text \<open>The whole function: any exception is logged and \<^verbatim>\<open>None\<close> is returned.\<close>

definition decode_image :: "env \<Rightarrow> json \<Rightarrow> image option" where
  "decode_image env image_data =
     (case decode_image_try env image_data of Inl e \<Rightarrow> None | Inr img \<Rightarrow> Some img)"

text \<open>
  The decoder as the specification words it: everything up to and including the first
  comma is discarded. Used only to compare with \<open>data_url_payload\<close>.
\<close>

definition spec_after_first_comma :: "string \<Rightarrow> string" where
  "spec_after_first_comma s =
     (if CHR '','' \<in> set s then tl (dropWhile (\<lambda>c. c \<noteq> CHR '','') s) else s)"

subsection \<open>The model handle and detect_objects (lines 16-38, 57-82)\<close>

text \<open>
  A YOLO result holds boxes and a dict of class names; a box holds four tensors, read
  through \<^verbatim>\<open>[0]\<close>. The model itself is a parameter: a function of the image and the two
  thresholds that returns the results or raises.
\<close>

record box =
  cls :: "pyfloat list"
  conf :: "pyfloat list"
  xyxy :: "pyfloat list list"
  xywhn :: "pyfloat list list"

record result =
  boxes :: "box list"
  names :: "(int \<times> string) list"

type_synonym yolo = "image \<Rightarrow> rat \<Rightarrow> rat \<Rightarrow> exn + result list"

record app_state =
  MODEL_AVAILABLE :: bool
  model :: "yolo option"

text \<open>
  Lines 16-38. \<open>import_ok\<close> tells whether \<^verbatim>\<open>from ultralytics import YOLO\<close> succeeded
  (the alternative is ImportError), \<open>load\<close> is the outcome of \<^verbatim>\<open>YOLO('yolov8n.pt')\<close>,
  which is only attempted after a successful import.
\<close>

definition startup :: "bool \<Rightarrow> exn + yolo \<Rightarrow> app_state" where
  "startup import_ok load =
     (if import_ok then
        (case load of
           Inr m \<Rightarrow> \<lparr>MODEL_AVAILABLE = True, model = Some m\<rparr>
         | Inl e \<Rightarrow> \<lparr>MODEL_AVAILABLE = False, model = None\<rparr>)
      else \<lparr>MODEL_AVAILABLE = False, model = None\<rparr>)"

text \<open>Lines 71-76: the dict built for one box, its entries evaluated in order.\<close>

definition detection :: "result \<Rightarrow> box \<Rightarrow> exn + json" where
  "detection result box =
     (case py_index (cls box) 0 of Inl e \<Rightarrow> Inl e | Inr c \<Rightarrow>
     (case py_int_float c of Inl e \<Rightarrow> Inl e | Inr i \<Rightarrow>
     (case map_of (names result) i of None \<Rightarrow> Inl (KeyError ''class id'') | Some name \<Rightarrow>
     (case py_index (conf box) 0 of Inl e \<Rightarrow> Inl e | Inr p \<Rightarrow>
     (case py_index (xyxy box) 0 of Inl e \<Rightarrow> Inl e | Inr b \<Rightarrow>
     (case py_index (xywhn box) 0 of Inl e \<Rightarrow> Inl e | Inr bn \<Rightarrow>
        Inr (JObj [(''class'', JStr name),
                   (''confidence'', JFloat p),
                   (''bbox'', JArr (map JFloat b)),
                   (''bbox_normalized'', JArr (map JFloat bn))])))))))"

text \<open>Lines 70-77 and 68-77: the two loops, appending to \<^verbatim>\<open>detections\<close>.\<close>

fun boxes_loop :: "result \<Rightarrow> box list \<Rightarrow> json list \<Rightarrow> exn + json list" where
  "boxes_loop result [] detections = Inr detections"
| "boxes_loop result (box # rest) detections =
     (case detection result box of
        Inl e \<Rightarrow> Inl e
      | Inr d \<Rightarrow> boxes_loop result rest (detections @ [d]))"

fun results_loop :: "result list \<Rightarrow> json list \<Rightarrow> exn + json list" where
  "results_loop [] detections = Inr detections"
| "results_loop (result # rest) detections =
     (case boxes_loop result (boxes result) detections of
        Inl e \<Rightarrow> Inl e
      | Inr detections' \<Rightarrow> results_loop rest detections')"

text \<open>Lines 63-79, the body of the \<^verbatim>\<open>try\<close>, for a loaded model \<open>m\<close>.\<close>

definition detect_objects_try :: "yolo \<Rightarrow> image \<Rightarrow> exn + json list" where
  "detect_objects_try m img =
     (case m img (25 / 100) (45 / 100) of
        Inl e \<Rightarrow> Inl e
      | Inr results \<Rightarrow> results_loop results [])"

text \<open>
  The whole function. Its result type still has room for an exception, so that
  "never raises" is a statement to prove and not a property of the type.
\<close>

definition detect_objects :: "app_state \<Rightarrow> image \<Rightarrow> exn + json list" where
  "detect_objects st img =
     (if \<not> MODEL_AVAILABLE st then Inr []
      else (case model st of
              None \<Rightarrow> Inr []
            | Some m \<Rightarrow>
                (case detect_objects_try m img of
                   Inl e \<Rightarrow> Inr []
                 | Inr detections \<Rightarrow> Inr detections)))"

subsection \<open>Responses and the shared head of the two POST routes\<close>

text \<open>
  A response is a status code and a JSON body: \<^verbatim>\<open>jsonify(d)\<close> alone is status 200,
  \<^verbatim>\<open>jsonify(d), 400\<close> is status 400. A step of a handler either raises, returns a
  response, or goes on with a value.
\<close>

type_synonym response = "nat \<times> json"

datatype 'a outcome = Raise exn | Return response | Next 'a

text \<open>
  Lines 98-106 of \<^verbatim>\<open>detect\<close>, which lines 133-141 of \<^verbatim>\<open>detect_stream\<close> repeat
  word for word. \<open>request_json\<close> is what evaluating \<^verbatim>\<open>request.json\<close> gives: the parsed
  body (\<open>JNull\<close> for \<^verbatim>\<open>None\<close>), or the exception Flask raises for a body it rejects.
\<close>

definition request_image :: "env \<Rightarrow> exn + json \<Rightarrow> (json \<times> image) outcome" where
  "request_image env request_json =
     (case request_json of
        Inl e \<Rightarrow> Raise e
      | Inr data \<Rightarrow>
          if \<not> truthy data then Return (400, JObj [(''error'', JStr ''No image data provided'')])
          else (case py_in ''image'' data of
                  Inl e \<Rightarrow> Raise e
                | Inr has_image \<Rightarrow>
                    if \<not> has_image
                    then Return (400, JObj [(''error'', JStr ''No image data provided'')])
                    else (case py_getitem data ''image'' of
                            Inl e \<Rightarrow> Raise e
                          | Inr image_data \<Rightarrow>
                              (case decode_image env image_data of
                                 None \<Rightarrow> Return (400, JObj [(''error'', JStr ''Failed to decode image'')])
                               | Some img \<Rightarrow> Next (data, img)))))"

text \<open>Lines 121-123 and 160-162: the handler of \<^verbatim>\<open>except Exception\<close>.\<close>

definition error_500 :: "exn \<Rightarrow> response" where
  "error_500 e = (500, JObj [(''error'', JStr (str_exn e))])"

subsection \<open>GET /health (lines 85-91)\<close>

definition health :: "app_state \<Rightarrow> response" where
  "health st =
     (200, JObj [(''status'', JStr ''healthy''),
                 (''model_loaded'', JBool (MODEL_AVAILABLE st \<and> model st \<noteq> None))])"

subsection \<open>POST /detect (lines 94-123)\<close>

definition detect_try :: "env \<Rightarrow> app_state \<Rightarrow> exn + json \<Rightarrow> exn + response" where
  "detect_try env st request_json =
     (case request_image env request_json of
        Raise e \<Rightarrow> Inl e
      | Return r \<Rightarrow> Inr r
      | Next (data, img) \<Rightarrow>
          (case detect_objects st img of
             Inl e \<Rightarrow> Inl e
           | Inr detections \<Rightarrow>
               Inr (200, JObj [(''success'', JBool True),
                               (''detections'', JArr detections),
                               (''count'', JInt (int (length detections)))])))"

definition detect :: "env \<Rightarrow> app_state \<Rightarrow> exn + json \<Rightarrow> response" where
  "detect env st request_json =
     (case detect_try env st request_json of Inl e \<Rightarrow> error_500 e | Inr r \<Rightarrow> r)"

subsection \<open>POST /detect/stream (lines 126-162)\<close>

definition max_size :: int where
  "max_size = 640"

text \<open>Lines 146-147: \<^verbatim>\<open>ratio\<close> and \<^verbatim>\<open>new_size\<close>, for \<^verbatim>\<open>image.size = (w, h)\<close>.\<close>

definition stream_new_size :: "int \<times> int \<Rightarrow> exn + int \<times> int" where
  "stream_new_size sz =
     (case py_truediv max_size (max (fst sz) (snd sz)) of
        Inl e \<Rightarrow> Inl e
      | Inr ratio \<Rightarrow>
          Inr (py_int (py_mul_int_float (fst sz) ratio),
               py_int (py_mul_int_float (snd sz) ratio)))"

text \<open>Lines 144-148: the image after the resizing step.\<close>

definition stream_resize :: "env \<Rightarrow> image \<Rightarrow> exn + image" where
  "stream_resize env img =
     (if max (fst (image_size img)) (snd (image_size img)) > max_size then
        (case stream_new_size (image_size img) of
           Inl e \<Rightarrow> Inl e
         | Inr new_size \<Rightarrow> Image_resize env img new_size)
      else Inr img)"

text \<open>
  Lines 133-148: everything before the call of \<^verbatim>\<open>detect_objects\<close> on line 151. When
  the outcome is \<open>Next (data, img)\<close>, \<open>img\<close> is the image passed to the detector.
\<close>

definition stream_image :: "env \<Rightarrow> exn + json \<Rightarrow> (json \<times> image) outcome" where
  "stream_image env request_json =
     (case request_image env request_json of
        Raise e \<Rightarrow> Raise e
      | Return r \<Rightarrow> Return r
      | Next (data, img) \<Rightarrow>
          (case stream_resize env img of
             Inl e \<Rightarrow> Raise e
           | Inr img' \<Rightarrow> Next (data, img')))"

definition detect_stream_try :: "env \<Rightarrow> app_state \<Rightarrow> exn + json \<Rightarrow> exn + response" where
  "detect_stream_try env st request_json =
     (case stream_image env request_json of
        Raise e \<Rightarrow> Inl e
      | Return r \<Rightarrow> Inr r
      | Next (data, img) \<Rightarrow>
          (case detect_objects st img of
             Inl e \<Rightarrow> Inl e
           | Inr detections \<Rightarrow>
               (case py_get data ''timestamp'' of
                  Inl e \<Rightarrow> Inl e
                | Inr timestamp \<Rightarrow>
                    Inr (200, JObj [(''detections'', JArr detections),
                                    (''count'', JInt (int (length detections))),
                                    (''timestamp'', timestamp)]))))"

definition detect_stream :: "env \<Rightarrow> app_state \<Rightarrow> exn + json \<Rightarrow> response" where
  "detect_stream env st request_json =
     (case detect_stream_try env st request_json of Inl e \<Rightarrow> error_500 e | Inr r \<Rightarrow> r)"

text \<open>
  The resizer as the specification words it: the exact ratio, each side rounded to the
  nearest integer. Used only to compare with \<open>stream_new_size\<close>.
\<close>

definition spec_new_size :: "int \<times> int \<Rightarrow> int \<times> int" where
  "spec_new_size sz =
     (let ratio = (of_int max_size :: rat) / of_int (max (fst sz) (snd sz))
      in (round (of_int (fst sz) * ratio), round (of_int (snd sz) * ratio)))"

text \<open>
  What the theorems on resizing ask of Pillow's \<^verbatim>\<open>resize\<close>: a call that returns has
  been given a size of at least one pixel each way and returns an image of that size.
  (Pillow raises ValueError, "height and width must be > 0", for any other size.)
\<close>

definition resize_contract :: "env \<Rightarrow> bool" where
  "resize_contract env =
     (\<forall>img sz. case Image_resize env img sz of
                 Inl e \<Rightarrow> True
               | Inr img' \<Rightarrow> 1 \<le> fst sz \<and> 1 \<le> snd sz \<and> image_size img' = sz)"

text \<open>
  What truncation makes of a side \<open>d\<close> of an image whose longer side is \<open>m\<close>: the exact
  quotient \<open>d * 640 / m\<close> rounded down, or one less than the quotient when the division
  is exact (the float product can fall just below the integer).
\<close>

definition truncated_scale :: "int \<Rightarrow> int \<Rightarrow> int \<Rightarrow> bool" where
  "truncated_scale m d d' =
     (d' = d * max_size div m \<or> (m dvd d * max_size \<and> d' = d * max_size div m - 1))"

subsection \<open>A concrete setting\<close>

text \<open>
  A small instance of the parameters, on which the theorems below are exercised: a codec
  that knows four base64 strings, an image library that knows four files, and a model
  that finds one object.
\<close>

definition test_image :: "int \<Rightarrow> int \<Rightarrow> image" where
  "test_image w h = \<lparr>image_size = (w, h), pixels = []\<rparr>"

definition test_env :: env where
  "test_env =
     \<lparr>b64decode = (\<lambda>s. case map_of [(''AA=='', [0]), (''AQ=='', [1]), (''Ag=='', [2]), (''Aw=='', [3])] s of
                          None \<Rightarrow> Inl (ValueError ''Incorrect padding'')
                        | Some bs \<Rightarrow> Inr bs),
      Image_open = (\<lambda>bs. case map_of [([0], test_image 100 50), ([1], test_image 998 1000),
                                        ([2], test_image 1 1000), ([3], test_image 2000 3)] bs of
                           None \<Rightarrow> Inl (OtherException ''cannot identify image file'')
                         | Some img \<Rightarrow> Inr img),
      Image_resize = (\<lambda>img sz. if fst sz < 1 \<or> snd sz < 1
                                then Inl (ValueError ''height and width must be > 0'')
                                else Inr (img\<lparr>image_size := sz\<rparr>))\<rparr>"

definition test_yolo :: yolo where
  "test_yolo img c i =
     Inr [\<lparr>boxes = [\<lparr>cls = [Fin 0], conf = [Fin (9 / 10)],
                      xyxy = [[Fin 1, Fin 2, Fin 30, Fin 40]],
                      xywhn = [[Fin (1 / 4), Fin (1 / 4), Fin (1 / 2), Fin (1 / 2)]]\<rparr>],
           names = [(0, ''person'')]\<rparr>]"


section \<open>Properties\<close>

subsection \<open>Float rounding\<close>

lemma pos_quotient:
  assumes "0 < x" "quotient_of x = (a, b)"
  shows "0 < a" "0 < b" "x = of_int a / of_int b"
proof -
  show b: "0 < b" using assms(2) by (rule quotient_of_denom_pos)
  show x: "x = of_int a / of_int b" using assms(2) by (rule quotient_of_div)
  from assms(1) x b show "0 < a"
    by (simp add: zero_less_divide_iff)
qed

lemma bitlen_powi_bounds:
  assumes "0 < a"
  shows "(2::rat) powi (bitlen a - 1) \<le> of_int a" "of_int a < (2::rat) powi (bitlen a)"
proof -
  from assms have ge: "1 \<le> bitlen a" by (auto simp: bitlen_alt_def)
  from bitlen_bounds[OF assms] have lo: "2 ^ nat (bitlen a - 1) \<le> a" and hi: "a < 2 ^ nat (bitlen a)"
    by auto
  from lo have "(of_int (2 ^ nat (bitlen a - 1)) :: rat) \<le> of_int a"
    by (simp only: of_int_le_iff)
  then show "(2::rat) powi (bitlen a - 1) \<le> of_int a"
    using ge by (simp add: power_int_def)
  from hi have "(of_int a :: rat) < of_int (2 ^ nat (bitlen a))"
    by (simp only: of_int_less_iff)
  then show "of_int a < (2::rat) powi (bitlen a)"
    using ge by (simp add: power_int_def)
qed

lemma binade_bounds:
  assumes "0 < x"
  shows "2 powi (binade x) \<le> x" "x < 2 powi (binade x + 1)"
proof -
  obtain a b where q: "quotient_of x = (a, b)" by (cases "quotient_of x")
  note ab = pos_quotient[OF assms q]
  let ?k = "bitlen a - bitlen b"
  have a1: "(2::rat) powi (bitlen a - 1) \<le> of_int a" and a2: "of_int a < (2::rat) powi (bitlen a)"
    using bitlen_powi_bounds[OF ab(1)] by auto
  have b1: "(2::rat) powi (bitlen b - 1) \<le> of_int b" and b2: "of_int b < (2::rat) powi (bitlen b)"
    using bitlen_powi_bounds[OF ab(2)] by auto
  have bpos: "(0::rat) < of_int b" using ab(2) by simp
  have lo: "2 powi (?k - 1) \<le> x"
  proof -
    have "(2::rat) powi (?k - 1) * of_int b \<le> 2 powi (?k - 1) * 2 powi (bitlen b)"
      using b2 by (intro mult_left_mono) simp_all
    also have "\<dots> = 2 powi (bitlen a - 1)"
      by (simp add: power_int_add[symmetric])
    also have "\<dots> \<le> of_int a" by (rule a1)
    finally show ?thesis using bpos ab(3) by (simp add: pos_le_divide_eq)
  qed
  have hi: "x < 2 powi (?k + 1)"
  proof -
    have "of_int a < (2::rat) powi (bitlen a)" by (rule a2)
    also have "\<dots> = 2 powi (?k + 1) * 2 powi (bitlen b - 1)"
      by (simp add: power_int_add[symmetric])
    also have "\<dots> \<le> 2 powi (?k + 1) * of_int b"
      using b1 by (intro mult_left_mono) simp_all
    finally show ?thesis using bpos ab(3) by (simp add: pos_divide_less_eq)
  qed
  show "2 powi (binade x) \<le> x"
    using lo by (simp add: binade_def q Let_def)
  show "x < 2 powi (binade x + 1)"
    using hi by (auto simp add: binade_def q Let_def not_le)
qed

lemma round_half_even_error:
  "\<bar>of_int (round_half_even q) - q\<bar> \<le> 1 / 2"
proof -
  have "of_int \<lfloor>q\<rfloor> \<le> q" "q < of_int \<lfloor>q\<rfloor> + 1" by linarith+
  then show ?thesis
    by (auto simp add: round_half_even_def Let_def)
qed

lemma round_half_even_of_int: "round_half_even (of_int n) = n"
  by (simp add: round_half_even_def Let_def)

lemma powi_shift: "(2::rat) powi (b - int n) * 2 ^ n = 2 powi b"
proof -
  have "(2::rat) powi (b - int n) * 2 powi (int n) = 2 powi (b - int n + int n)"
    by (rule power_int_add[symmetric]) simp
  then show ?thesis by simp
qed

text \<open>Rounding to a double changes a positive number by at most one part in \<open>2 ^ 53\<close>.\<close>

lemma round_double_error:
  assumes "0 < x"
  shows "\<bar>round_double x - x\<bar> \<le> x / 2 ^ 53"
proof -
  define u :: rat where "u = 2 powi (binade x - 52)"
  have upos: "0 < u" by (simp add: u_def)
  have rd: "round_double x = of_int (round_half_even (x / u)) * u"
    using assms by (simp add: round_double_def u_def Let_def)
  have "\<bar>of_int (round_half_even (x / u)) - x / u\<bar> \<le> 1 / 2"
    by (rule round_half_even_error)
  then have "\<bar>of_int (round_half_even (x / u)) - x / u\<bar> * u \<le> 1 / 2 * u"
    using upos by (intro mult_right_mono) simp_all
  moreover have "\<bar>of_int (round_half_even (x / u)) - x / u\<bar> * u = \<bar>round_double x - x\<bar>"
  proof -
    have "\<bar>of_int (round_half_even (x / u)) - x / u\<bar> * u
          = \<bar>(of_int (round_half_even (x / u)) - x / u) * u\<bar>"
      using upos by (simp add: abs_mult)
    also have "(of_int (round_half_even (x / u)) - x / u) * u = round_double x - x"
      using upos by (simp add: rd left_diff_distrib)
    finally show ?thesis .
  qed
  ultimately have e1: "\<bar>round_double x - x\<bar> \<le> u / 2" by simp
  have "u * 2 ^ 52 = 2 powi (binade x)"
    using powi_shift[of "binade x" 52] by (simp add: u_def)
  with binade_bounds(1)[OF assms] have "u * 2 ^ 52 \<le> x" by simp
  then have "u / 2 \<le> x / 2 ^ 53" by simp
  with e1 show ?thesis by linarith
qed

lemma round_double_of_int:
  assumes "0 \<le> d" "d < 2 ^ 53"
  shows "round_double (of_int d) = of_int d"
proof (cases "d = 0")
  case True
  then show ?thesis by (simp add: round_double_def)
next
  case False
  with assms have dpos: "0 < d" by simp
  then have xpos: "(0::rat) < of_int d" by simp
  define e where "e = binade (of_int d)"
  have lo: "(2::rat) powi e \<le> of_int d" and hi: "(of_int d :: rat) < 2 powi (e + 1)"
    using binade_bounds[OF xpos] by (simp_all add: e_def)
  have "(of_int d :: rat) < of_int (2 ^ 53)" using assms(2) by (simp only: of_int_less_iff)
  then have "(of_int d :: rat) < 2 ^ 53" by simp
  with lo have "(2::rat) powi e < 2 ^ 53" by linarith
  then have "(2::rat) powi e < 2 powi 53" by simp
  then have "e < 53" by (rule power_int_le_imp_less_exp[rotated]) simp_all
  then have e52: "e \<le> 52" by simp
  define s where "s = nat (52 - e)"
  have u: "(2::rat) powi (e - 52) = 1 / 2 ^ s"
  proof -
    have "e - 52 = - int s" using e52 by (simp add: s_def)
    then show ?thesis by (simp add: power_int_minus_divide)
  qed
  have "round_double (of_int d) = of_int (round_half_even (of_int d / (1 / 2 ^ s))) * (1 / 2 ^ s)"
    using dpos by (simp add: round_double_def Let_def e_def[symmetric] u)
  also have "(of_int d :: rat) / (1 / 2 ^ s) = of_int (d * 2 ^ s)" by simp
  also have "round_half_even (of_int (d * 2 ^ s)) = d * 2 ^ s" by (rule round_half_even_of_int)
  also have "(of_int (d * 2 ^ s) :: rat) * (1 / 2 ^ s) = of_int d" by simp
  finally show ?thesis .
qed

subsection \<open>The scaled side of an image\<close>

lemma scaled_side_close:
  assumes m: "640 < m" and d: "0 < d" "d \<le> m"
  defines "x \<equiv> (of_int (d * 640) :: rat) / of_int m"
  defines "y \<equiv> py_mul_int_float d (round_double (640 / of_int m))"
  assumes dm: "d < 2 ^ 53"
  shows "\<bar>y - x\<bar> \<le> 1920 / 2 ^ 53" "0 \<le> y"
proof -
  define x0 :: rat where "x0 = 640 / of_int m"
  define r where "r = round_double x0"
  define p where "p = of_int d * r"
  have mpos: "(0::rat) < of_int m" using m by simp
  have dpos: "(0::rat) < of_int d" using d by simp
  have x0pos: "0 < x0" using mpos by (simp add: x0_def)
  have xx0: "x = of_int d * x0" by (simp add: x_def x0_def)
  have xpos: "0 < x" using dpos x0pos by (simp add: xx0)
  have "(of_int d :: rat) \<le> of_int m" using d by simp
  then have "of_int d * x0 \<le> of_int m * x0"
    using x0pos by (intro mult_right_mono) simp_all
  also have "of_int m * x0 = 640" using mpos by (simp add: x0_def)
  finally have x640: "x \<le> 640" by (simp add: xx0)
  have er: "\<bar>r - x0\<bar> \<le> x0 / 2 ^ 53"
    unfolding r_def by (rule round_double_error[OF x0pos])
  have "\<bar>p - x\<bar> = of_int d * \<bar>r - x0\<bar>"
    using dpos by (simp add: p_def xx0 right_diff_distrib[symmetric] abs_mult)
  also have "\<dots> \<le> of_int d * (x0 / 2 ^ 53)"
    using er dpos by (intro mult_left_mono) simp_all
  also have "\<dots> = x / 2 ^ 53" by (simp add: xx0)
  finally have ep: "\<bar>p - x\<bar> \<le> x / 2 ^ 53" .
  have "x / 2 ^ 53 < x" using xpos by simp
  with ep have ppos: "0 < p" and p2: "p \<le> 2 * x" by linarith+
  have yp: "y = round_double p"
    using d dm by (simp add: y_def py_mul_int_float_def round_double_of_int p_def r_def x0_def)
  have ey: "\<bar>y - p\<bar> \<le> p / 2 ^ 53"
    unfolding yp by (rule round_double_error[OF ppos])
  have "p / 2 ^ 53 \<le> 2 * x / 2 ^ 53" using p2 by (simp add: divide_right_mono)
  with ey ep have "\<bar>y - x\<bar> \<le> 3 * x / 2 ^ 53" by linarith
  also have "\<dots> \<le> 3 * 640 / 2 ^ 53" using x640 by (simp add: divide_right_mono)
  finally show "\<bar>y - x\<bar> \<le> 1920 / 2 ^ 53" by simp
  have "p / 2 ^ 53 \<le> p" using ppos by simp
  with ey ppos show "0 \<le> y" by linarith
qed

lemma scaled_side:
  assumes m: "640 < m" "m < 2 ^ 31" and d: "0 \<le> d" "d \<le> m"
  shows "truncated_scale m d (py_int (py_mul_int_float d (round_double (640 / of_int m))))"
proof (cases "d = 0")
  case True
  then show ?thesis
    by (simp add: truncated_scale_def py_mul_int_float_def round_double_def py_int_def)
next
  case False
  with d have dpos: "0 < d" by simp
  define x where "x = (of_int (d * 640) :: rat) / of_int m"
  define y where "y = py_mul_int_float d (round_double (640 / of_int m))"
  define q where "q = d * 640 div m"
  define t where "t = d * 640 mod m"
  have d53: "d < 2 ^ 53" using d m by simp
  have close: "\<bar>y - x\<bar> \<le> 1920 / 2 ^ 53" and ynn: "0 \<le> y"
    using scaled_side_close[OF m(1) dpos d(2) d53] by (simp_all add: x_def y_def)
  have mpos: "(0::rat) < of_int m" using m by simp
  have "d * 640 = q * m + t" by (simp add: q_def t_def)
  then have "(of_int (d * 640) :: rat) = of_int q * of_int m + of_int t"
    by (simp only: of_int_add[symmetric] of_int_mult[symmetric])
  then have xq: "x = of_int q + of_int t / of_int m"
    using mpos by (simp add: x_def add_divide_distrib)
  have t0: "0 \<le> t" and tm: "t < m" using m by (simp_all add: t_def)
  have pi: "py_int y = \<lfloor>y\<rfloor>" using ynn by (simp add: py_int_def)
  show ?thesis
  proof (cases "t = 0")
    case True
    then have dv: "m dvd d * 640" by (simp add: t_def dvd_eq_mod_eq_0)
    from True xq have "x = of_int q" by simp
    moreover have "(1920::rat) / 2 ^ 53 < 1" by simp
    ultimately have lo: "of_int q - 1 \<le> y" and hi: "y < of_int q + 1"
      using close by linarith+
    have "\<lfloor>y\<rfloor> = q \<or> \<lfloor>y\<rfloor> = q - 1"
    proof (cases "of_int q \<le> y")
      case True
      with hi have "\<lfloor>y\<rfloor> = q" by (intro floor_unique) simp_all
      then show ?thesis by simp
    next
      case False
      with lo have "\<lfloor>y\<rfloor> = q - 1" by (intro floor_unique) simp_all
      then show ?thesis by simp
    qed
    with dv show ?thesis
      by (auto simp add: truncated_scale_def pi y_def[symmetric] q_def max_size_def)
  next
    case False
    with t0 have t1: "1 \<le> t" by simp
    have "(of_int m :: rat) < of_int (2 ^ 31)" using m(2) by (simp only: of_int_less_iff)
    then have mb: "(of_int m :: rat) < 2 ^ 31" by simp
    have small: "(1920::rat) / 2 ^ 53 < 1 / of_int m"
    proof -
      have "(1920::rat) / 2 ^ 53 * of_int m < 1920 / 2 ^ 53 * 2 ^ 31"
        using mb by (intro mult_strict_left_mono) simp_all
      also have "\<dots> < 1" by simp
      finally show ?thesis using mpos by (simp add: pos_less_divide_eq)
    qed
    have "(1::rat) \<le> of_int t" using t1 by simp
    then have f1: "1 / of_int m \<le> (of_int t :: rat) / of_int m"
      using mpos by (simp add: divide_right_mono)
    have "t \<le> m - 1" using tm by simp
    then have "(of_int t :: rat) \<le> of_int (m - 1)" by (simp only: of_int_le_iff)
    then have "(of_int t :: rat) \<le> of_int m - 1" by simp
    then have "(of_int t :: rat) / of_int m \<le> (of_int m - 1) / of_int m"
      using mpos by (simp add: divide_right_mono)
    also have "\<dots> = 1 - 1 / of_int m" using mpos by (simp add: diff_divide_distrib)
    finally have f2: "(of_int t :: rat) / of_int m \<le> 1 - 1 / of_int m" .
    from close small f1 f2 xq have "of_int q \<le> y" "y < of_int q + 1" by linarith+
    then have "\<lfloor>y\<rfloor> = q" by (intro floor_unique)
    then show ?thesis
      by (simp add: truncated_scale_def pi y_def[symmetric] q_def max_size_def)
  qed
qed

subsection \<open>The image decoder\<close>

lemma split_on_takeWhile:
  "split_on c s =
     takeWhile (\<lambda>x. x \<noteq> c) s #
       (if c \<in> set s then split_on c (tl (dropWhile (\<lambda>x. x \<noteq> c) s)) else [])"
  by (induction s) auto

lemma sublist_single: "sublist [c] s \<longleftrightarrow> c \<in> set s"
  by (induction s) (auto simp add: sublist_Cons_right)

lemma data_url_payload_str:
  "data_url_payload (JStr s) =
     Inr (JStr (if CHR '','' \<in> set s
                then takeWhile (\<lambda>x. x \<noteq> CHR '','') (spec_after_first_comma s)
                else s))"
proof (cases "CHR '','' \<in> set s")
  case False
  then show ?thesis by (simp add: data_url_payload_def sublist_single)
next
  case True
  let ?rest = "tl (dropWhile (\<lambda>x. x \<noteq> CHR '','') s)"
  have "split_on CHR '','' s = takeWhile (\<lambda>x. x \<noteq> CHR '','') s # split_on CHR '','' ?rest"
    using True by (subst split_on_takeWhile) simp
  also have "split_on CHR '','' ?rest = takeWhile (\<lambda>x. x \<noteq> CHR '','') ?rest #
       (if CHR '','' \<in> set ?rest then split_on CHR '','' (tl (dropWhile (\<lambda>x. x \<noteq> CHR '','') ?rest)) else [])"
    by (rule split_on_takeWhile)
  finally have "py_index (split_on CHR '','' s) 1 = Inr (takeWhile (\<lambda>x. x \<noteq> CHR '','') ?rest)"
    by (simp add: py_index_def)
  then show ?thesis
    using True by (simp add: data_url_payload_def sublist_single spec_after_first_comma_def)
qed

text \<open>
  C1. Claim: when the input string contains a comma, the text decoded as base64 is
  everything after the first comma, also when there are more commas; without a comma the
  whole string is decoded. The code takes \<^verbatim>\<open>split(',')[1]\<close>, the piece between the first
  and the second comma (\<open>data_url_payload_str\<close>), so with two commas the rest of the
  payload is dropped. The comment on line 44 says that only the data-URL prefix is removed.
  At the input below the code decodes \<^verbatim>\<open>QUJD\<close> where the claim has \<^verbatim>\<open>QUJD,REVG\<close>.
\<close>

theorem decode_image_second_comma:
  "data_url_payload (JStr ''data:image/png;base64,QUJD,REVG'') = Inr (JStr ''QUJD'')
   \<and> spec_after_first_comma ''data:image/png;base64,QUJD,REVG'' = ''QUJD,REVG''"
  by (simp add: data_url_payload_str spec_after_first_comma_def)

subsection \<open>The resizer of the stream route\<close>

lemma stream_new_size_eq:
  assumes "640 < max w h"
  shows "stream_new_size (w, h) =
           Inr (py_int (py_mul_int_float w (round_double (640 / of_int (max w h)))),
                py_int (py_mul_int_float h (round_double (640 / of_int (max w h)))))"
  using assms by (simp add: stream_new_size_def py_truediv_def max_size_def)

lemma stream_new_size_truncates:
  assumes "640 < max w h" "0 \<le> w" "0 \<le> h" "max w h < 2 ^ 31"
  shows "\<exists>w' h'. stream_new_size (w, h) = Inr (w', h')
           \<and> truncated_scale (max w h) w w' \<and> truncated_scale (max w h) h h'"
proof -
  have "truncated_scale (max w h) w (py_int (py_mul_int_float w (round_double (640 / of_int (max w h)))))"
    using assms by (intro scaled_side) simp_all
  moreover have "truncated_scale (max w h) h (py_int (py_mul_int_float h (round_double (640 / of_int (max w h)))))"
    using assms by (intro scaled_side) simp_all
  ultimately show ?thesis
    using stream_new_size_eq[OF assms(1)] by simp
qed

lemma truncated_scale_le:
  assumes "truncated_scale m d d'" "0 < m" "d \<le> m"
  shows "d' \<le> 640"
proof -
  have "d * 640 \<le> m * 640" using assms(3) by simp
  then have "d * 640 div m \<le> m * 640 div m" by (rule zdiv_mono1) (rule assms(2))
  also have "\<dots> = 640" using assms(2) by simp
  finally show ?thesis using assms(1) by (auto simp add: truncated_scale_def max_size_def)
qed

text \<open>
  C2, as amended. Claim: an image whose longer side exceeds 640 is scaled by
  \<open>640 / longer side\<close> with each new side rounded to the nearest integer, and any other
  image is returned unchanged. The code truncates (\<^verbatim>\<open>int(dim * ratio)\<close>), as the
  counterexample after the theorem shows. What holds: an image whose longer side is at
  most 640 is returned unchanged; for a longer side above 640 (and sides below \<open>2 ^ 31\<close>)
  the size requested from \<^verbatim>\<open>resize\<close> has each side \<open>d\<close> replaced by \<open>d * 640 / longer\<close>
  rounded down, or by one less than that quotient when the division is exact.
\<close>

theorem stream_resize_truncates:
  assumes "image_size img = (w, h)"
  shows "(max w h \<le> 640 \<longrightarrow> stream_resize env img = Inr img)
       \<and> (640 < max w h \<and> 0 \<le> w \<and> 0 \<le> h \<and> max w h < 2 ^ 31 \<longrightarrow>
            (\<exists>w' h'. stream_new_size (w, h) = Inr (w', h')
               \<and> stream_resize env img = Image_resize env img (w', h')
               \<and> truncated_scale (max w h) w w' \<and> truncated_scale (max w h) h h'))"
proof (intro conjI impI)
  assume "max w h \<le> 640"
  then have "\<not> max_size < max (fst (image_size img)) (snd (image_size img))"
    using assms by (simp add: max_size_def not_less)
  then show "stream_resize env img = Inr img"
    by (simp only: stream_resize_def if_False)
next
  assume a: "640 < max w h \<and> 0 \<le> w \<and> 0 \<le> h \<and> max w h < 2 ^ 31"
  then obtain w' h' where n: "stream_new_size (w, h) = Inr (w', h')"
      and t: "truncated_scale (max w h) w w'" "truncated_scale (max w h) h h'"
    using stream_new_size_truncates[of w h] by blast
  from a have "max_size < max (fst (image_size img)) (snd (image_size img))"
    using assms by (simp add: max_size_def)
  then have "stream_resize env img = Image_resize env img (w', h')"
    using assms n by (simp only: stream_resize_def if_True sum.case)
  with n t show "\<exists>w' h'. stream_new_size (w, h) = Inr (w', h')
               \<and> stream_resize env img = Image_resize env img (w', h')
               \<and> truncated_scale (max w h) w w' \<and> truncated_scale (max w h) h h'"
    by blast
qed

theorem stream_resize_truncates_witness:
  "stream_resize test_env (test_image 100 50) = Inr (test_image 100 50)
   \<and> (\<exists>w' h'. stream_new_size (998, 1000) = Inr (w', h')
         \<and> stream_resize test_env (test_image 998 1000)
             = Image_resize test_env (test_image 998 1000) (w', h')
         \<and> truncated_scale 1000 998 w' \<and> truncated_scale 1000 1000 h')"
  using stream_resize_truncates[of "test_image 100 50" 100 50 test_env]
        stream_resize_truncates[of "test_image 998 1000" 998 1000 test_env]
  by (simp add: test_image_def)

text \<open>
  At 998 by 1000 the exact scaled width is 638.72: the code asks for 638 pixels, rounding
  to the nearest integer gives 639.
\<close>

theorem stream_resize_nearest_counterexample:
  "stream_new_size (998, 1000) = Inr (638, 640) \<and> spec_new_size (998, 1000) = (639, 640)"
  by code_simp

subsection \<open>The detector adapter\<close>

lemma detect_objects_returns: "\<exists>ds. detect_objects st img = Inr ds"
  by (simp add: detect_objects_def split: option.split sum.split)

lemma detect_objects_unavailable:
  "\<not> MODEL_AVAILABLE st \<or> model st = None \<Longrightarrow> detect_objects st img = Inr []"
  by (auto simp add: detect_objects_def)



subsection \<open>POST /detect\<close>

lemma py_getitem_Inr:
  "py_getitem data k = Inr v \<Longrightarrow> \<exists>kvs. data = JObj kvs \<and> map_of kvs k = Some v"
  by (cases data) (auto split: option.splits)

lemma map_of_Some_key: "map_of kvs k = Some v \<Longrightarrow> kvs \<noteq> [] \<and> k \<in> set (map fst kvs)"
  by (induction kvs) (auto split: if_splits)

lemma request_image_found:
  assumes "map_of kvs ''image'' = Some v"
  shows "request_image env (Inr (JObj kvs)) =
           (case decode_image env v of
              None \<Rightarrow> Return (400, JObj [(''error'', JStr ''Failed to decode image'')])
            | Some img \<Rightarrow> Next (JObj kvs, img))"
  using assms map_of_Some_key[OF assms] by (simp add: request_image_def)

lemma request_image_Next:
  assumes "request_image env rq = Next (data, img)"
  shows "\<exists>kvs v. rq = Inr (JObj kvs) \<and> data = JObj kvs \<and> map_of kvs ''image'' = Some v
            \<and> decode_image env v = Some img"
  using assms
  by (auto simp add: request_image_def split: sum.splits if_splits option.splits
           dest!: py_getitem_Inr)

lemma request_image_Return:
  assumes "request_image env rq = Return r"
  shows "fst r = 400"
  using assms
  by (auto simp add: request_image_def split: sum.splits if_splits option.splits)



text \<open>
  C6. A POST to /detect whose \<^verbatim>\<open>image\<close> value decodes is answered with status 200 and a
  body holding \<^verbatim>\<open>success: true\<close>, the detections list of \<^verbatim>\<open>detect_objects\<close>, and a
  count equal to the length of that list.
\<close>

theorem detect_success:
  assumes "map_of kvs ''image'' = Some v" "decode_image env v = Some img"
  shows "\<exists>detections.
           detect_objects st img = Inr detections
           \<and> detect env st (Inr (JObj kvs)) =
               (200, JObj [(''success'', JBool True),
                           (''detections'', JArr detections),
                           (''count'', JInt (int (length detections)))])"
proof -
  obtain ds where ds: "detect_objects st img = Inr ds"
    using detect_objects_returns by blast
  have "request_image env (Inr (JObj kvs)) = Next (JObj kvs, img)"
    using request_image_found[OF assms(1), of env] assms(2) by simp
  with ds show ?thesis
    by (simp add: detect_def detect_try_def)
qed

theorem detect_success_witness:
  "decode_image test_env (JStr ''data:image/png;base64,AA=='') = Some (test_image 100 50)
   \<and> (\<exists>detections.
         detect_objects (startup True (Inr test_yolo)) (test_image 100 50) = Inr detections
         \<and> detect test_env (startup True (Inr test_yolo))
              (Inr (JObj [(''image'', JStr ''data:image/png;base64,AA=='')])) =
             (200, JObj [(''success'', JBool True),
                         (''detections'', JArr detections),
                         (''count'', JInt (int (length detections)))]))"
proof -
  have d: "decode_image test_env (JStr ''data:image/png;base64,AA=='') = Some (test_image 100 50)"
    by code_simp
  have m: "map_of [(''image'', JStr ''data:image/png;base64,AA=='')] ''image''
             = Some (JStr ''data:image/png;base64,AA=='')"
    by simp
  show ?thesis
    using detect_success[OF m d, of "startup True (Inr test_yolo)"] d by simp
qed

text \<open>
  C7. When the model is unavailable, a POST to /detect with a decodable image is answered
  with status 200, an empty detections list and count 0.
\<close>

theorem detect_degraded:
  assumes "\<not> MODEL_AVAILABLE st \<or> model st = None"
      and "map_of kvs ''image'' = Some v" "decode_image env v = Some img"
  shows "detect env st (Inr (JObj kvs)) =
           (200, JObj [(''success'', JBool True), (''detections'', JArr []), (''count'', JInt 0)])"
proof -
  have "detect_objects st img = Inr []"
    using assms(1) by (rule detect_objects_unavailable)
  moreover have "request_image env (Inr (JObj kvs)) = Next (JObj kvs, img)"
    using request_image_found[OF assms(2), of env] assms(3) by simp
  ultimately show ?thesis
    by (simp add: detect_def detect_try_def)
qed

theorem detect_degraded_witness:
  "\<not> MODEL_AVAILABLE (startup False (Inr test_yolo))
   \<and> decode_image test_env (JStr ''AA=='') = Some (test_image 100 50)
   \<and> detect test_env (startup False (Inr test_yolo)) (Inr (JObj [(''image'', JStr ''AA=='')])) =
        (200, JObj [(''success'', JBool True), (''detections'', JArr []), (''count'', JInt 0)])"
proof -
  have a: "\<not> MODEL_AVAILABLE (startup False (Inr test_yolo)) \<or> model (startup False (Inr test_yolo)) = None"
    by (simp add: startup_def)
  have d: "decode_image test_env (JStr ''AA=='') = Some (test_image 100 50)"
    by code_simp
  have m: "map_of [(''image'', JStr ''AA=='')] ''image'' = Some (JStr ''AA=='')"
    by simp
  have n: "\<not> MODEL_AVAILABLE (startup False (Inr test_yolo))"
    by (simp add: startup_def)
  show ?thesis
    using detect_degraded[OF a m d] n d by simp
qed

subsection \<open>POST /detect/stream\<close>

lemma stream_image_Next:
  assumes "stream_image env rq = Next (data, img')"
  shows "\<exists>kvs v img. rq = Inr (JObj kvs) \<and> data = JObj kvs \<and> map_of kvs ''image'' = Some v
            \<and> decode_image env v = Some img \<and> stream_resize env img = Inr img'"
proof (cases "request_image env rq")
  case (Raise e)
  with assms show ?thesis by (simp add: stream_image_def)
next
  case (Return r)
  with assms show ?thesis by (simp add: stream_image_def)
next
  case (Next p)
  obtain d img where p: "p = (d, img)" by (cases p)
  from assms Next p have r: "stream_resize env img = Inr img'" and dd: "d = data"
    by (auto simp add: stream_image_def split: sum.splits)
  from request_image_Next[of env rq d img] Next p dd r show ?thesis by auto
qed

lemma stream_image_Return:
  assumes "stream_image env rq = Return r"
  shows "fst r = 400"
proof (cases "request_image env rq")
  case (Raise e)
  with assms show ?thesis by (simp add: stream_image_def)
next
  case (Return r')
  with assms request_image_Return[of env rq r'] show ?thesis by (simp add: stream_image_def)
next
  case (Next p)
  with assms show ?thesis by (auto simp add: stream_image_def split: sum.splits prod.splits)
qed

text \<open>
  C8. A POST to /detect/stream that is answered with status 200 carries, in the response,
  the \<^verbatim>\<open>timestamp\<close> of the request body when there is one and null otherwise, and no
  \<^verbatim>\<open>success\<close> field.
\<close>

theorem detect_stream_timestamp:
  assumes "detect_stream env st rq = (200, body)"
  shows "\<exists>kvs fields. rq = Inr (JObj kvs) \<and> body = JObj fields
           \<and> map_of fields ''timestamp'' =
               Some (case map_of kvs ''timestamp'' of None \<Rightarrow> JNull | Some t \<Rightarrow> t)
           \<and> map_of fields ''success'' = None"
proof (cases "stream_image env rq")
  case (Raise e)
  with assms show ?thesis
    by (simp add: detect_stream_def detect_stream_try_def error_500_def)
next
  case (Return r)
  with assms stream_image_Return[OF Return] show ?thesis
    by (simp add: detect_stream_def detect_stream_try_def)
next
  case (Next p)
  obtain data img where p: "p = (data, img)" by (cases p)
  obtain kvs where rq: "rq = Inr (JObj kvs)" and data: "data = JObj kvs"
    using stream_image_Next[of env rq data img] Next p by auto
  obtain ds where ds: "detect_objects st img = Inr ds"
    using detect_objects_returns by blast
  from assms Next p data ds
  have "body = JObj [(''detections'', JArr ds), (''count'', JInt (int (length ds))),
                     (''timestamp'', case map_of kvs ''timestamp'' of None \<Rightarrow> JNull | Some t \<Rightarrow> t)]"
    by (auto simp add: detect_stream_def detect_stream_try_def split: option.splits)
  with rq show ?thesis by simp
qed

theorem detect_stream_timestamp_witness:
  "(\<exists>body. detect_stream test_env (startup True (Inr test_yolo))
        (Inr (JObj [(''image'', JStr ''AQ==''), (''timestamp'', JInt 12345)])) = (200, JObj body)
      \<and> map_of body ''timestamp'' = Some (JInt 12345) \<and> map_of body ''success'' = None)
   \<and> (\<exists>body. detect_stream test_env (startup True (Inr test_yolo))
        (Inr (JObj [(''image'', JStr ''AQ=='')])) = (200, JObj body)
      \<and> map_of body ''timestamp'' = Some JNull \<and> map_of body ''success'' = None)"
proof -
  let ?st = "startup True (Inr test_yolo)"
  let ?r1 = "Inr (JObj [(''image'', JStr ''AQ==''), (''timestamp'', JInt 12345)]) :: exn + json"
  let ?r2 = "Inr (JObj [(''image'', JStr ''AQ=='')]) :: exn + json"
  have "fst (detect_stream test_env ?st ?r1) = 200" by code_simp
  then have b1: "detect_stream test_env ?st ?r1 = (200, snd (detect_stream test_env ?st ?r1))"
    by (cases "detect_stream test_env ?st ?r1") simp
  have "fst (detect_stream test_env ?st ?r2) = 200" by code_simp
  then have b2: "detect_stream test_env ?st ?r2 = (200, snd (detect_stream test_env ?st ?r2))"
    by (cases "detect_stream test_env ?st ?r2") simp
  from detect_stream_timestamp[OF b1] obtain f1 where
    "snd (detect_stream test_env ?st ?r1) = JObj f1" "map_of f1 ''timestamp'' = Some (JInt 12345)"
    "map_of f1 ''success'' = None" by auto
  moreover from detect_stream_timestamp[OF b2] obtain f2 where
    "snd (detect_stream test_env ?st ?r2) = JObj f2" "map_of f2 ''timestamp'' = Some JNull"
    "map_of f2 ''success'' = None" by auto
  ultimately show ?thesis using b1 b2 by metis
qed

lemma resize_contract_test_env: "resize_contract test_env"
  by (simp add: resize_contract_def test_env_def)

lemma stream_resize_raises:
  assumes "resize_contract env"
      and "max_size < max (fst (image_size img)) (snd (image_size img))"
      and "stream_new_size (image_size img) = Inr (w', h')"
      and "w' < 1 \<or> h' < 1"
  shows "\<exists>e. stream_resize env img = Inl e"
proof (cases "Image_resize env img (w', h')")
  case (Inl e)
  with assms(2,3) show ?thesis by (simp add: stream_resize_def)
next
  case (Inr img')
  from assms(1) have "case Image_resize env img (w', h') of
                        Inl e \<Rightarrow> True
                      | Inr img' \<Rightarrow> 1 \<le> fst (w', h') \<and> 1 \<le> snd (w', h') \<and> image_size img' = (w', h')"
    unfolding resize_contract_def by blast
  with Inr assms(4) show ?thesis by simp
qed

lemma stream_raise_500:
  assumes "map_of kvs ''image'' = Some v" "decode_image env v = Some img"
      and "stream_resize env img = Inl e"
  shows "stream_image env (Inr (JObj kvs)) = Raise e"
    and "detect_stream env st (Inr (JObj kvs)) = error_500 e"
proof -
  have "request_image env (Inr (JObj kvs)) = Next (JObj kvs, img)"
    using request_image_found[OF assms(1), of env] assms(2) by simp
  then show r: "stream_image env (Inr (JObj kvs)) = Raise e"
    using assms(3) by (simp add: stream_image_def)
  then show "detect_stream env st (Inr (JObj kvs)) = error_500 e"
    by (simp add: detect_stream_def detect_stream_try_def)
qed

lemma stream_image_capped:
  assumes c: "resize_contract env"
      and i: "map_of kvs ''image'' = Some v" "decode_image env v = Some img"
      and s: "image_size img = (w, h)" "640 < max w h" "0 \<le> w" "0 \<le> h" "max w h < 2 ^ 31"
      and n: "stream_image env (Inr (JObj kvs)) = Next (data, img')"
  shows "\<exists>w' h'. image_size img' = (w', h') \<and> 1 \<le> w' \<and> 1 \<le> h' \<and> max w' h' \<le> 640
            \<and> truncated_scale (max w h) w w' \<and> truncated_scale (max w h) h h'"
proof -
  have "request_image env (Inr (JObj kvs)) = Next (JObj kvs, img)"
    using request_image_found[OF i(1), of env] i(2) by simp
  with n have r: "stream_resize env img = Inr img'"
    by (auto simp add: stream_image_def split: sum.splits)
  obtain w' h' where ns: "stream_new_size (w, h) = Inr (w', h')"
      and t: "truncated_scale (max w h) w w'" "truncated_scale (max w h) h h'"
    using stream_new_size_truncates[OF s(2-5)] by blast
  from s(1,2) have "max_size < max (fst (image_size img)) (snd (image_size img))"
    by (simp add: max_size_def)
  with ns s(1) have "stream_resize env img = Image_resize env img (w', h')"
    by (simp only: stream_resize_def if_True sum.case)
  with r have rr: "Image_resize env img (w', h') = Inr img'" by simp
  from c have "case Image_resize env img (w', h') of
                 Inl e \<Rightarrow> True
               | Inr img' \<Rightarrow> 1 \<le> fst (w', h') \<and> 1 \<le> snd (w', h') \<and> image_size img' = (w', h')"
    unfolding resize_contract_def by blast
  with rr have sz: "image_size img' = (w', h')" "1 \<le> w'" "1 \<le> h'" by simp_all
  have mpos: "0 < max w h" using s(2) by simp
  have "w' \<le> 640" using t(1) mpos by (rule truncated_scale_le) simp
  moreover have "h' \<le> 640" using t(2) mpos by (rule truncated_scale_le) simp
  ultimately show ?thesis using sz t by simp
qed

text \<open>
  C3. Claim: for every request to /detect/stream whose image has a longer side above 640,
  the image passed to the detector has both sides at most 640 and the original aspect
  ratio up to the rounding of each side. This holds whenever \<^verbatim>\<open>resize\<close> returns
  (\<open>stream_image_capped\<close>). It fails for an image so thin that its shorter side scales
  below one pixel: for 2000 by 3 the requested size is 640 by 0, \<^verbatim>\<open>resize\<close> raises, no
  image reaches the detector and the request is answered with status 500.
\<close>

theorem stream_thin_image_raises:
  assumes "resize_contract env"
      and "map_of kvs ''image'' = Some v" "decode_image env v = Some img"
      and "image_size img = (2000, 3)"
  shows "stream_new_size (2000, 3) = Inr (640, 0)
         \<and> (\<exists>e. stream_image env (Inr (JObj kvs)) = Raise e
                \<and> detect_stream env st (Inr (JObj kvs)) = error_500 e)"
proof -
  have ns: "stream_new_size (2000, 3) = Inr (640, 0)" by code_simp
  have "max_size < max (fst (image_size img)) (snd (image_size img))"
    using assms(4) by (simp add: max_size_def)
  moreover have "stream_new_size (image_size img) = Inr (640, 0)"
    using ns assms(4) by simp
  ultimately obtain e where "stream_resize env img = Inl e"
    using stream_resize_raises[OF assms(1), of img 640 0] by auto
  with stream_raise_500[OF assms(2,3)] ns show ?thesis by blast
qed

theorem stream_thin_image_raises_witness:
  "resize_contract test_env
   \<and> decode_image test_env (JStr ''Aw=='') = Some (test_image 2000 3)
   \<and> (\<exists>e. stream_image test_env (Inr (JObj [(''image'', JStr ''Aw=='')])) = Raise e
          \<and> detect_stream test_env (startup True (Inr test_yolo))
               (Inr (JObj [(''image'', JStr ''Aw=='')])) = error_500 e)"
proof -
  have d: "decode_image test_env (JStr ''Aw=='') = Some (test_image 2000 3)" by code_simp
  have m: "map_of [(''image'', JStr ''Aw=='')] ''image'' = Some (JStr ''Aw=='')" by simp
  have s: "image_size (test_image 2000 3) = (2000, 3)" by (simp add: test_image_def)
  show ?thesis
    using stream_thin_image_raises[OF resize_contract_test_env m d s] resize_contract_test_env d by simp
qed

text \<open>
  C10. There are sizes with a longer side above 640 whose computed new size has a zero
  side: 1 by 1000 gives 0 by 640. For every image whose new size has a side below one
  pixel, \<^verbatim>\<open>resize\<close> raises and /detect/stream answers with status 500, although the
  image was decoded.
\<close>

theorem stream_zero_side_500:
  "max_size < max 1 1000
   \<and> stream_new_size (1, 1000) = Inr (0, 640)
   \<and> (resize_contract env
        \<and> map_of kvs ''image'' = Some v \<and> decode_image env v = Some img
        \<and> max_size < max (fst (image_size img)) (snd (image_size img))
        \<and> stream_new_size (image_size img) = Inr (w', h') \<and> (w' < 1 \<or> h' < 1) \<longrightarrow>
      (\<exists>e. stream_resize env img = Inl e
          \<and> detect_stream env st (Inr (JObj kvs)) = (500, JObj [(''error'', JStr (str_exn e))])))"
proof (intro conjI impI)
  show "max_size < max 1 1000" by (simp add: max_size_def)
  show "stream_new_size (1, 1000) = Inr (0, 640)" by code_simp
next
  assume a: "resize_contract env
        \<and> map_of kvs ''image'' = Some v \<and> decode_image env v = Some img
        \<and> max_size < max (fst (image_size img)) (snd (image_size img))
        \<and> stream_new_size (image_size img) = Inr (w', h') \<and> (w' < 1 \<or> h' < 1)"
  then obtain e where e: "stream_resize env img = Inl e"
    using stream_resize_raises[of env img w' h'] by blast
  with a have "detect_stream env st (Inr (JObj kvs)) = error_500 e"
    using stream_raise_500(2)[of kvs v env img e st] by blast
  with e show "\<exists>e. stream_resize env img = Inl e
          \<and> detect_stream env st (Inr (JObj kvs)) = (500, JObj [(''error'', JStr (str_exn e))])"
    by (auto simp add: error_500_def)
qed

theorem stream_zero_side_500_witness:
  "resize_contract test_env
   \<and> decode_image test_env (JStr ''Ag=='') = Some (test_image 1 1000)
   \<and> stream_new_size (image_size (test_image 1 1000)) = Inr (0, 640)
   \<and> (\<exists>e. stream_resize test_env (test_image 1 1000) = Inl e
          \<and> detect_stream test_env (startup True (Inr test_yolo))
               (Inr (JObj [(''image'', JStr ''Ag=='')])) = (500, JObj [(''error'', JStr (str_exn e))]))"
proof -
  have d: "decode_image test_env (JStr ''Ag=='') = Some (test_image 1 1000)" by code_simp
  have s: "image_size (test_image 1 1000) = (1, 1000)" by (simp add: test_image_def)
  have n: "stream_new_size (image_size (test_image 1 1000)) = Inr (0, 640)"
    using stream_zero_side_500 by (simp only: s)
  show ?thesis
    using stream_zero_side_500[of test_env "[(''image'', JStr ''Ag=='')]" "JStr ''Ag==''" "test_image 1 1000" 0 640
              "startup True (Inr test_yolo)"]
          resize_contract_test_env d n
    by (simp add: s max_size_def)
qed

subsection \<open>GET /health\<close>

text \<open>
  C9. GET /health always answers with status 200; after startup the body is
  \<^verbatim>\<open>{status: "healthy", model_loaded: b}\<close> where \<open>b\<close> is true exactly when the import
  succeeded and the model loaded.
\<close>

theorem health_reports_model:
  "fst (health st) = 200
   \<and> health (startup import_ok load) =
       (200, JObj [(''status'', JStr ''healthy''),
                   (''model_loaded'', JBool (import_ok \<and> \<not> isl load))])"
  by (cases load) (simp_all add: health_def startup_def)

theorem health_reports_model_witness:
  "health (startup True (Inr test_yolo)) =
     (200, JObj [(''status'', JStr ''healthy''), (''model_loaded'', JBool True)])
   \<and> health (startup True (Inl (OtherException ''no weights''))) =
     (200, JObj [(''status'', JStr ''healthy''), (''model_loaded'', JBool False)])
   \<and> health (startup False (Inr test_yolo)) =
     (200, JObj [(''status'', JStr ''healthy''), (''model_loaded'', JBool False)])"
  using health_reports_model[of "startup True (Inr test_yolo)" True "Inr test_yolo"]
        health_reports_model[of "startup True (Inr test_yolo)" True "Inl (OtherException ''no weights'')"]
        health_reports_model[of "startup True (Inr test_yolo)" False "Inr test_yolo"]
  by simp

end
